theory Spec2Isabelle
  imports Main
begin

section \<open>The state machine runtime of cspjs (src/state_machine.js)\<close>

text \<open>
  The runtime drives a step function produced by the \<open>task\<close> macro. The step function, the
  completion callback, the cleanup functions and the host's \<open>process.nextTick\<close> are outside
  the file; the model records every call that leaves the runtime as an event of a trace, in
  the order the calls are made, and keeps the queue of \<open>process.nextTick\<close> as a list that
  is served first in, first out. Whatever the step function does in reaction to a call is a
  further sequence of operations on the machine (datatype \<open>op\<close> below).
\<close>

subsection \<open>JavaScript numbers\<close>

text \<open>
  The numbers of the file are step ids, block sizes and their sums: integers, held as
  double precision numbers. \<open>Fin n\<close> is the finite number \<open>n\<close>; the sums of the file can
  leave the finite numbers, and then they are an infinity. Zero has no sign here.
\<close>

datatype number = Fin int | PosInf | NegInf | NaN

text \<open>The number of binary digits of a natural number.\<close>

fun bits :: "nat \<Rightarrow> nat" where
  "bits n = (if n = 0 then 0 else Suc (bits (n div 2)))"

declare bits.simps [simp del]

text \<open>
  The double nearest to an integer. Below \<open>2^53\<close> every integer is a double. From there
  on the doubles are the multiples of \<open>u\<close>, the power of two that leaves 53 binary digits;
  a tie goes to the even multiple; what rounds to \<open>2^1024\<close> or more is infinite.
\<close>

definition fl :: "int \<Rightarrow> number" where
  "fl n =
     (if \<bar>n\<bar> < 2 ^ 53 then Fin n
      else
        (let u = 2 ^ (bits (nat \<bar>n\<bar>) - 53);
             d = \<bar>n\<bar> div u;
             r = \<bar>n\<bar> mod u;
             m = (if 2 * r < u then d else if u < 2 * r then d + 1
                  else if even d then d else d + 1);
             a = m * u in
         if 2 ^ 1024 \<le> a then (if n < 0 then NegInf else PosInf) else Fin (sgn n * a)))"

text \<open>The operator \<open>+\<close> on two numbers.\<close>

fun js_plus :: "number \<Rightarrow> number \<Rightarrow> number" where
  "js_plus NaN y = NaN"
| "js_plus x NaN = NaN"
| "js_plus PosInf NegInf = NaN"
| "js_plus NegInf PosInf = NaN"
| "js_plus PosInf y = PosInf"
| "js_plus x PosInf = PosInf"
| "js_plus NegInf y = NegInf"
| "js_plus x NegInf = NegInf"
| "js_plus (Fin a) (Fin b) = fl (a + b)"

text \<open>The decimal digits of a natural number.\<close>

definition digit :: "nat \<Rightarrow> char" where
  "digit d = ''0123456789'' ! d"

fun show_nat :: "nat \<Rightarrow> string" where
  "show_nat n = (if n < 10 then [digit n] else show_nat (n div 10) @ [digit (n mod 10)])"

declare show_nat.simps [simp del]

text \<open>
  The text of a number (Number::toString of ECMAScript). Below \<open>2^53\<close> it is the decimal
  digits. From there on it is made of the digits of the least number of digits \<open>k\<close> for
  which some \<open>s\<close> of \<open>k\<close> digits, times a power of ten, is a decimal that reads back as
  \<open>x\<close>; of two such \<open>s\<close> the one nearer to \<open>x\<close>, and the even one when they are as near.
  \<open>with_digits k x\<close> is that \<open>s\<close> for a given \<open>k\<close>, with the number \<open>n\<close> of digits that
  \<open>s \<times> 10^(n-k)\<close> has. Up to 21 digits the text is \<open>s\<close> followed by zeros, beyond it has
  an exponent.
\<close>

definition with_digits :: "nat \<Rightarrow> nat \<Rightarrow> (nat \<times> nat) option" where
  "with_digits k x =
     (let n0 = length (show_nat x);
          p = 10 ^ (n0 - k);
          lo = x div p;
          hi = lo + 1;
          ok_lo = (fl (int (lo * p)) = Fin (int x));
          ok_hi = (fl (int (hi * p)) = Fin (int x));
          pick = (if ok_lo \<and> ok_hi then
                    (if x - lo * p < hi * p - x then Some lo
                     else if hi * p - x < x - lo * p then Some hi
                     else if even lo then Some lo else Some hi)
                  else if ok_lo then Some lo
                  else if ok_hi then Some hi
                  else None) in
      case pick of
        None \<Rightarrow> None
      | Some s \<Rightarrow> if s = 10 ^ k then Some (10 ^ (k - 1), Suc n0) else Some (s, n0))"

definition shortest :: "nat \<Rightarrow> (nat \<times> nat) option" where
  "shortest x =
     (case List.find (\<lambda>k. with_digits k x \<noteq> None) [1..<18] of
        None \<Rightarrow> None
      | Some k \<Rightarrow> with_digits k x)"

definition show_finite :: "nat \<Rightarrow> string" where
  "show_finite x =
     (if x < 2 ^ 53 then show_nat x
      else
        (case shortest x of
           None \<Rightarrow> show_nat x
         | Some (s, n) \<Rightarrow>
             (let ds = show_nat s in
              if n \<le> 21 then ds @ replicate (n - length ds) (CHR ''0'')
              else
                (case ds of
                   [] \<Rightarrow> []
                 | d # r \<Rightarrow> d # (if r = [] then [] else CHR ''.'' # r)
                             @ ''e+'' @ show_nat (n - 1)))))"

fun num_to_string :: "number \<Rightarrow> string" where
  "num_to_string NaN = ''NaN''"
| "num_to_string PosInf = ''Infinity''"
| "num_to_string NegInf = ''-Infinity''"
| "num_to_string (Fin n) =
     (if n < 0 then CHR ''-'' # show_finite (nat (- n)) else show_finite (nat n))"

subsection \<open>JavaScript values\<close>

text \<open>
  \<open>Num (Fin n)\<close> is the number that the literal \<open>n\<close> denotes. \<open>ErrorObj m\<close> is
  \<open>new Error(m)\<close>. \<open>Obj s\<close> is an object of the host (a built-in function, a prototype),
  known by the text \<open>s\<close> that \<open>String\<close> makes of it.
\<close>

datatype val =
    Undefined | Null | Bool bool | Num number | Str string | ErrorObj string | Obj string

text \<open>The test \<open>if (v)\<close> of JavaScript.\<close>

fun truthy :: "val \<Rightarrow> bool" where
  "truthy Undefined = False"
| "truthy Null = False"
| "truthy (Bool b) = b"
| "truthy (Num (Fin n)) = (n \<noteq> 0)"
| "truthy (Num NaN) = False"
| "truthy (Num PosInf) = True"
| "truthy (Num NegInf) = True"
| "truthy (Str s) = (s \<noteq> [])"
| "truthy (ErrorObj m) = True"
| "truthy (Obj s) = True"

text \<open>The number that a value of the model denotes: the double that the literal reads as.\<close>

fun as_double :: "number \<Rightarrow> number" where
  "as_double (Fin n) = fl n"
| "as_double x = x"

text \<open>
  The conversion to a string, which is also the conversion to a property name
  (\<open>a[v]\<close>) and what \<open>"..." + v\<close> appends.
\<close>

fun to_string :: "val \<Rightarrow> string" where
  "to_string Undefined = ''undefined''"
| "to_string Null = ''null''"
| "to_string (Bool b) = (if b then ''true'' else ''false'')"
| "to_string (Num x) = num_to_string (as_double x)"
| "to_string (Str s) = s"
| "to_string (ErrorObj m) = (if m = [] then ''Error'' else ''Error: '' @ m)"
| "to_string (Obj s) = s"

datatype error = TypeError | RangeError | Error string

subsection \<open>Arrays used as dictionaries\<close>

text \<open>
  \<open>this.stepIDs = []\<close> is an array, written and read under arbitrary property names.
  \<open>elems\<close> are its own properties but \<open>length\<close>, by name; the values stored by the file
  are numbers.
\<close>

record JSArray =
  elems :: "string \<rightharpoonup> number"
  len :: nat

definition empty_array :: JSArray where
  "empty_array = \<lparr> elems = Map.empty, len = 0 \<rparr>"

text \<open>
  A property name is an array index when it is the decimal text of a natural number
  below \<open>2^32 - 1\<close>.
\<close>

definition digit_val :: "char \<Rightarrow> nat" where
  "digit_val c = length (takeWhile (\<lambda>d. d \<noteq> c) ''0123456789'')"

definition index_of :: "string \<Rightarrow> nat option" where
  "index_of k =
     (let n = foldl (\<lambda>a c. 10 * a + digit_val c) 0 k in
      if show_nat n = k \<and> n < 2 ^ 32 - 1 then Some n else None)"

text \<open>
  \<open>a[k] = x\<close> for a number \<open>x\<close>. Writing \<open>length\<close> sets the length, which must be a
  natural number below \<open>2^32\<close> (a RangeError otherwise), and deletes the elements from that
  index on. Writing \<open>__proto__\<close> calls the setter that arrays inherit, which ignores a
  number. Writing an index grows the length to reach it. Any other name becomes an own
  property.
\<close>

definition array_set :: "string \<Rightarrow> number \<Rightarrow> JSArray \<Rightarrow> error + JSArray" where
  "array_set k x a =
     (if k = ''length'' then
        (case x of
           Fin n \<Rightarrow>
             if 0 \<le> n \<and> n < 2 ^ 32 then
               Inr \<lparr> elems = (\<lambda>k'. case index_of k' of
                                     None \<Rightarrow> elems a k'
                                   | Some m \<Rightarrow> if nat n \<le> m then None else elems a k'),
                     len = nat n \<rparr>
             else Inl RangeError
         | _ \<Rightarrow> Inl RangeError)
      else if k = ''__proto__'' then Inr a
      else
        (case index_of k of
           None \<Rightarrow> Inr (a\<lparr> elems := (elems a)(k \<mapsto> x) \<rparr>)
         | Some m \<Rightarrow> Inr \<lparr> elems = (elems a)(k \<mapsto> x), len = max (len a) (Suc m) \<rparr>))"

text \<open>
  \<open>a[k]\<close>: the length, an own property, or what the array inherits from the prototypes of
  the host (\<open>proto\<close>); \<open>undefined\<close> when there is none.
\<close>

definition array_get :: "(string \<rightharpoonup> val) \<Rightarrow> string \<Rightarrow> JSArray \<Rightarrow> val" where
  "array_get proto k a =
     (if k = ''length'' then Num (Fin (int (len a)))
      else case elems a k of
             Some x \<Rightarrow> Num x
           | None \<Rightarrow> (case proto k of Some v \<Rightarrow> v | None \<Rightarrow> Undefined))"

text \<open>
  What an array inherits from \<open>Array.prototype\<close> and \<open>Object.prototype\<close> in ECMAScript 5.1
  with the additions of V8, the host of the file's time. Later hosts add names; the
  machine below carries the table of its host.
\<close>

definition native :: "string \<Rightarrow> val" where
  "native f = Obj (''function '' @ f @ ''() { [native code] }'')"

definition Array_prototype :: "string \<rightharpoonup> val" where
  "Array_prototype =
     map_of
       ((''constructor'', native ''Array'') # (''__proto__'', Obj [])
        # map (\<lambda>f. (f, native f))
            [''toString'', ''toLocaleString'', ''concat'', ''join'', ''pop'', ''push'',
             ''reverse'', ''shift'', ''slice'', ''sort'', ''splice'', ''unshift'', ''indexOf'',
             ''lastIndexOf'', ''every'', ''some'', ''forEach'', ''map'', ''filter'', ''reduce'',
             ''reduceRight'', ''valueOf'', ''hasOwnProperty'', ''isPrototypeOf'',
             ''propertyIsEnumerable'', ''__defineGetter__'', ''__defineSetter__'',
             ''__lookupGetter__'', ''__lookupSetter__''])"

subsection \<open>State\<close>

text \<open>
  The three shapes of object pushed on \<open>state.unwinding\<close>:
  \<open>{cleanup: true, fn: ...}\<close> (the closure applies the function named by the number to the
  arguments), \<open>{cleanup: true, step: id, state: snapshot}\<close> and \<open>{isError: true, step: id}\<close>.
\<close>

datatype frame =
    CleanupAction nat "val list"
  | CleanupStep int "val list"
  | ErrorStep int

text \<open>
  \<open>function State()\<close>. Arrays grow at the end: \<open>push\<close> appends, \<open>pop\<close> takes the last
  element. \<open>id'\<close> is the field \<open>id\<close>; it holds whatever \<open>goTo\<close> is given.
  \<open>installed_catches\<close> is the object used as a dictionary, under the step ids of
  \<open>pushErrorStep\<close>.
\<close>

record State =
  id' :: val
  args :: "val list"
  err :: val
  unwinding :: "frame list"
  phi :: "val list"
  installed_catches :: "int \<rightharpoonup> bool"
  waiting :: int
  isFinished :: bool
  isUnwinding :: bool
  abort_with_error :: val

definition new_State :: State where
  "new_State = \<lparr> id' = Num (Fin 0), args = [Null, Null], err = Null, unwinding = [], phi = [],
     installed_catches = Map.empty, waiting = 0, isFinished = False, isUnwinding = False,
     abort_with_error = Null \<rparr>"

subsection \<open>Jump tables\<close>

text \<open>
  \<open>jt_id\<close> is the field \<open>id\<close> of a jump table. The case values are values of any kind;
  the id and the block sizes are integers.
\<close>

record JumpTable =
  jt_id :: number
  cases :: "val list list"
  blockSizes :: "int list"
  stepIDs :: JSArray
  beyondID :: number

text \<open>The inner loop \<open>for (j = 0; j < ci.length; ++j) this.stepIDs[ci[j]] = sum\<close>.\<close>

fun assign_block :: "val list \<Rightarrow> number \<Rightarrow> JSArray \<Rightarrow> error + JSArray" where
  "assign_block [] sumv ids = Inr ids"
| "assign_block (c # ci) sumv ids =
     (case array_set (to_string c) sumv ids of
        Inl e \<Rightarrow> Inl e
      | Inr ids' \<Rightarrow> assign_block ci sumv ids')"

text \<open>
  The outer loop over \<open>i < blockSizes.length\<close>, on the remaining blocks. When \<open>cases\<close> is
  shorter than \<open>blockSizes\<close>, \<open>cases[i]\<close> is \<open>undefined\<close> and \<open>ci.length\<close> throws a TypeError.
  It returns the step ids and the final value of \<open>sum\<close> (\<open>sumv\<close> here).
\<close>

fun layout :: "val list list \<Rightarrow> int list \<Rightarrow> number \<Rightarrow> JSArray \<Rightarrow> error + (JSArray \<times> number)" where
  "layout cs [] sumv ids = Inr (ids, sumv)"
| "layout [] (b # bs) sumv ids = Inl TypeError"
| "layout (ci # cs) (b # bs) sumv ids =
     (case assign_block ci sumv ids of
        Inl e \<Rightarrow> Inl e
      | Inr ids' \<Rightarrow> layout cs bs (js_plus sumv (js_plus (Fin 1) (fl b))) ids')"

text \<open>\<open>function JumpTable(sm, id, cases, blockSizes)\<close>; the machine is passed to \<open>jumpToCase\<close>.\<close>

definition JumpTable :: "int \<Rightarrow> val list list \<Rightarrow> int list \<Rightarrow> error + JumpTable" where
  "JumpTable i cs bs =
     (case layout cs bs (js_plus (fl i) (Fin 1)) empty_array of
        Inl e \<Rightarrow> Inl e
      | Inr (ids, sumv) \<Rightarrow>
          Inr \<lparr> jt_id = fl i, cases = cs, blockSizes = bs, stepIDs = ids, beyondID = sumv \<rparr>)"

subsection \<open>The machine and its surroundings\<close>

datatype task = BoundStep | BoundUnwind

datatype event =
    FnCall "val list"
  | FinalCallback "val list"
  | CleanupRun nat "val list"
  | ConsoleError string
  | AssertionFailed

text \<open>The closure returned by \<open>thenTo(id)\<close>: the captured \<open>id\<close> and its variable \<open>done\<close>.\<close>

record Continuation =
  target :: int
  done' :: bool

text \<open>
  \<open>function StateMachine(context, callback, fn)\<close>. \<open>finalCallback\<close> says whether a
  callback was given (\<open>this.finalCallback && ...\<close>). \<open>stateVars\<close> stands for
  \<open>captureStateVars\<close> and \<open>restoreStateVars\<close>, which the generated code installs together:
  \<open>None\<close> while they are \<open>null\<close>, otherwise the state variables they read and assign.
  \<open>cachedJumpTable\<close> holds references into \<open>tables\<close>, the jump tables constructed so far;
  \<open>continuations\<close> are the closures created so far; \<open>nextTickQueue\<close> is the queue of
  \<open>process.nextTick\<close>; \<open>trace\<close> is the sequence of calls that left the runtime;
  \<open>arrayPrototype\<close> is what arrays inherit in the host.
\<close>

record StateMachine =
  state :: State
  finalCallback :: bool
  stateVars :: "val list option"
  cachedJumpTable :: "int \<rightharpoonup> nat"
  tables :: "JumpTable list"
  continuations :: "Continuation list"
  nextTickQueue :: "task list"
  trace :: "event list"
  arrayPrototype :: "string \<rightharpoonup> val"

definition new_StateMachine :: "bool \<Rightarrow> StateMachine" where
  "new_StateMachine cb = \<lparr> state = new_State, finalCallback = cb, stateVars = None,
     cachedJumpTable = Map.empty, tables = [], continuations = [], nextTickQueue = [],
     trace = [], arrayPrototype = Array_prototype \<rparr>"

definition nextTick :: "task \<Rightarrow> StateMachine \<Rightarrow> StateMachine" where
  "nextTick t sm = sm\<lparr> nextTickQueue := nextTickQueue sm @ [t] \<rparr>"

definition emit :: "event \<Rightarrow> StateMachine \<Rightarrow> StateMachine" where
  "emit e sm = sm\<lparr> trace := trace sm @ [e] \<rparr>"

subsection \<open>Scheduling\<close>

text \<open>\<open>this.fn.apply(this.context, as)\<close>: the call of the step function, in tail position.\<close>

definition call_fn :: "val list \<Rightarrow> StateMachine \<Rightarrow> StateMachine" where
  "call_fn as sm = emit (FnCall as) sm"

text \<open>\<open>StateMachine.prototype.step\<close>.\<close>

definition step :: "StateMachine \<Rightarrow> StateMachine" where
  "step sm =
     (let sm1 = sm\<lparr> state := (state sm)\<lparr> waiting := waiting (state sm) - 1 \<rparr> \<rparr> in
      if truthy (abort_with_error (state sm1)) then
        (let sm2 = sm1\<lparr> state := (state sm1)\<lparr> abort_with_error := Null \<rparr> \<rparr> in
         call_fn [abort_with_error (state sm2)] sm2)
      else call_fn (args (state sm1)) sm1)"

text \<open>\<open>StateMachine.prototype.goTo\<close>.\<close>

definition goTo :: "val \<Rightarrow> StateMachine \<Rightarrow> StateMachine" where
  "goTo i sm =
     nextTick BoundStep
       (sm\<lparr> state := (state sm)\<lparr> id' := i, waiting := waiting (state sm) + 1 \<rparr> \<rparr>)"

text \<open>\<open>StateMachine.prototype.start\<close>.\<close>

definition start :: "StateMachine \<Rightarrow> StateMachine" where
  "start sm = goTo (Num (Fin 1)) sm"

text \<open>
  \<open>StateMachine.prototype.thenTo\<close>: it returns the new closure, here its index in
  \<open>continuations\<close>.
\<close>

definition thenTo :: "int \<Rightarrow> StateMachine \<Rightarrow> nat \<times> StateMachine" where
  "thenTo i sm =
     (length (continuations sm),
      sm\<lparr> state := (state sm)\<lparr> waiting := waiting (state sm) + 1 \<rparr>,
          continuations := continuations sm @ [\<lparr> target = i, done' = False \<rparr>] \<rparr>)"

text \<open>
  A call of the closure number \<open>k\<close> with the arguments \<open>as\<close>. Only a closure that
  \<open>thenTo\<close> has returned can be called; for any other number nothing happens.
\<close>

definition invoke :: "nat \<Rightarrow> val list \<Rightarrow> StateMachine \<Rightarrow> StateMachine" where
  "invoke k as sm =
     (if k < length (continuations sm) then
        (let c = continuations sm ! k;
             sm1 = sm\<lparr> state := (state sm)\<lparr> waiting := waiting (state sm) - 1 \<rparr> \<rparr> in
         if truthy (abort_with_error (state sm1)) then
           call_fn [abort_with_error (state sm1)] sm1
         else if \<not> done' c then
           call_fn as
             (sm1\<lparr> continuations := (continuations sm1)[k := c\<lparr> done' := True \<rparr>],
                   state := (state sm1)\<lparr> id' := Num (Fin (target c)) \<rparr> \<rparr>)
         else emit (ConsoleError ''Callback called repeatedly!'') sm1)
      else sm)"

text \<open>\<open>StateMachine.prototype.callback\<close>; \<open>as\<close> is \<open>arguments\<close>, and \<open>err\<close> its first element.\<close>

definition callback :: "val list \<Rightarrow> StateMachine \<Rightarrow> StateMachine" where
  "callback as sm =
     nextTick BoundUnwind
       (sm\<lparr> state := (state sm)\<lparr> args := as,
                                  err := (case as of [] \<Rightarrow> Undefined | e # _ \<Rightarrow> e) \<rparr> \<rparr>)"

subsection \<open>Unwinding\<close>

text \<open>
  \<open>StateMachine.prototype.unwind\<close>. \<open>this.restoreStateVars(where.state)\<close> throws a
  TypeError while \<open>restoreStateVars\<close> is \<open>null\<close>; the frame is popped by then.
\<close>

definition unwind :: "StateMachine \<Rightarrow> (error \<times> StateMachine) + StateMachine" where
  "unwind sm =
     (if length (unwinding (state sm)) > 0 then
        (let wh = last (unwinding (state sm));
             sm1 = sm\<lparr> state := (state sm)\<lparr> unwinding := butlast (unwinding (state sm)),
                                              isUnwinding := True \<rparr> \<rparr> in
         case wh of
           ErrorStep stp \<Rightarrow>
             if truthy (err (state sm1)) then Inr (goTo (Num (Fin stp)) sm1)
             else Inr (nextTick BoundUnwind sm1)
         | CleanupAction f as \<Rightarrow> Inr (nextTick BoundUnwind (emit (CleanupRun f as) sm1))
         | CleanupStep stp snapshot \<Rightarrow>
             (case stateVars sm1 of
                None \<Rightarrow> Inl (TypeError, sm1)
              | Some _ \<Rightarrow> Inr (goTo (Num (Fin stp)) (sm1\<lparr> stateVars := Some snapshot \<rparr>))))
      else if \<not> isFinished (state sm) then
        (let sm1 = sm\<lparr> state := (state sm)\<lparr> waiting := 0, isFinished := True \<rparr> \<rparr> in
         Inr (if finalCallback sm1 then emit (FinalCallback (args (state sm1))) sm1 else sm1))
      else Inr sm)"

text \<open>\<open>StateMachine.prototype.unwindNextTick\<close>.\<close>

definition unwindNextTick :: "StateMachine \<Rightarrow> StateMachine" where
  "unwindNextTick sm = nextTick BoundUnwind sm"

text \<open>\<open>StateMachine.prototype.pushCleanupAction\<close>, for the function number \<open>f\<close>.\<close>

definition pushCleanupAction :: "nat \<Rightarrow> val list \<Rightarrow> StateMachine \<Rightarrow> StateMachine" where
  "pushCleanupAction f as sm =
     sm\<lparr> state := (state sm)\<lparr> unwinding := unwinding (state sm) @ [CleanupAction f as] \<rparr> \<rparr>"

text \<open>
  \<open>StateMachine.prototype.pushCleanupStep\<close>: \<open>this.captureStateVars()\<close> is evaluated
  before the push and throws a TypeError while it is \<open>null\<close>.
\<close>

definition pushCleanupStep :: "int \<Rightarrow> StateMachine \<Rightarrow> (error \<times> StateMachine) + StateMachine" where
  "pushCleanupStep i sm =
     (case stateVars sm of
        None \<Rightarrow> Inl (TypeError, sm)
      | Some vars \<Rightarrow>
          Inr (sm\<lparr> state := (state sm)\<lparr> unwinding := unwinding (state sm) @ [CleanupStep i vars] \<rparr> \<rparr>))"

text \<open>\<open>StateMachine.prototype.pushErrorStep\<close>.\<close>

definition pushErrorStep :: "int \<Rightarrow> StateMachine \<Rightarrow> StateMachine" where
  "pushErrorStep i sm =
     (if installed_catches (state sm) i \<noteq> Some True then
        sm\<lparr> state := (state sm)\<lparr> unwinding := unwinding (state sm) @ [ErrorStep i],
                                 installed_catches := (installed_catches (state sm))(i \<mapsto> True) \<rparr> \<rparr>
      else sm)"

text \<open>\<open>StateMachine.prototype.pushPhi\<close>.\<close>

definition pushPhi :: "val \<Rightarrow> StateMachine \<Rightarrow> StateMachine" where
  "pushPhi i sm = sm\<lparr> state := (state sm)\<lparr> phi := phi (state sm) @ [i] \<rparr> \<rparr>"

text \<open>
  \<open>StateMachine.prototype.phi\<close>: \<open>pop\<close> of an empty array is \<open>undefined\<close>.
\<close>

definition phi' :: "StateMachine \<Rightarrow> StateMachine" where
  "phi' sm =
     (case phi (state sm) of
        [] \<Rightarrow> goTo Undefined sm
      | _ # _ \<Rightarrow> goTo (last (phi (state sm)))
                  (sm\<lparr> state := (state sm)\<lparr> phi := butlast (phi (state sm)) \<rparr> \<rparr>))"

subsection \<open>Branching\<close>

text \<open>
  \<open>JumpTable.prototype.jumpToCase\<close>, on the machine the table refers to. \<open>caseVal\<close> is the
  value the program switches on. \<open>this.stepIDs[caseVal]\<close> reads the array under the name
  that \<open>caseVal\<close> converts to; \<open>!stepID\<close> holds for \<open>undefined\<close> and for 0. The exception
  leaves the machine as it is at the \<open>throw\<close>.
\<close>

definition jumpToCase :: "JumpTable \<Rightarrow> val \<Rightarrow> StateMachine \<Rightarrow> (error \<times> StateMachine) + StateMachine" where
  "jumpToCase jt caseVal sm =
     (let sm1 = pushPhi (Num (beyondID jt)) sm;
          stepID = array_get (arrayPrototype sm1) (to_string caseVal) (stepIDs jt) in
      if \<not> truthy stepID then
        Inl (Error (''Unhandled case '' @ [CHR 0x27] @ to_string caseVal @ [CHR 0x27]
                      @ '' at step '' @ to_string (Num (jt_id jt))), sm1)
      else Inr (goTo stepID sm1))"

text \<open>
  \<open>StateMachine.prototype.jumpTable\<close>. \<open>cases\<close> is \<open>None\<close> when the argument is left out.
  A failed \<open>console.assert\<close> prints and goes on. \<open>new JumpTable\<close> allocates: the new table
  is stored at the end of \<open>tables\<close> and the cache refers to it.
\<close>

definition jumpTable :: "int \<Rightarrow> val list list option \<Rightarrow> int list \<Rightarrow> StateMachine
    \<Rightarrow> (error \<times> StateMachine) + (nat option \<times> StateMachine)" where
  "jumpTable i cases_opt bs sm =
     (case cases_opt of
        None \<Rightarrow> Inr (cachedJumpTable sm i, sm)
      | Some cs \<Rightarrow>
          (let sm1 = (if length cs = length bs then sm else emit AssertionFailed sm) in
           case JumpTable i cs bs of
             Inl e \<Rightarrow> Inl (e, sm1)
           | Inr jt \<Rightarrow>
               Inr (Some (length (tables sm1)),
                    sm1\<lparr> tables := tables sm1 @ [jt],
                         cachedJumpTable := (cachedJumpTable sm1)(i \<mapsto> length (tables sm1)) \<rparr>)))"

subsection \<open>The control API\<close>

text \<open>\<open>controlAPIMaker\<close>: \<open>abort\<close>, and the getter \<open>isWaiting\<close>.\<close>

definition abort :: "val \<Rightarrow> StateMachine \<Rightarrow> StateMachine" where
  "abort e sm =
     (if waiting (state sm) > 0 then sm\<lparr> state := (state sm)\<lparr> abort_with_error := e \<rparr> \<rparr>
      else callback [e] sm)"

definition isWaiting :: "StateMachine \<Rightarrow> bool" where
  "isWaiting sm = (waiting (state sm) > 0)"

subsection \<open>Running the queue of process.nextTick\<close>

text \<open>
  One tick takes the oldest task of the queue and runs it. An exception that a task
  throws is not caught by anything: the run ends there.
\<close>

definition tick :: "StateMachine \<Rightarrow> (error \<times> StateMachine) + StateMachine" where
  "tick sm =
     (case nextTickQueue sm of
        [] \<Rightarrow> Inr sm
      | t # q \<Rightarrow>
          (let sm1 = sm\<lparr> nextTickQueue := q \<rparr> in
           case t of BoundStep \<Rightarrow> Inr (step sm1) | BoundUnwind \<Rightarrow> unwind sm1))"

function drain :: "StateMachine \<Rightarrow> (error \<times> StateMachine) + StateMachine" where
  "drain sm =
     (if nextTickQueue sm = [] then Inr sm
      else case tick sm of Inl e \<Rightarrow> Inl e | Inr sm' \<Rightarrow> drain sm')"
  by pat_completeness auto
termination
  by (relation "measure (\<lambda>sm. length (nextTickQueue sm) + length (unwinding (state sm)))")
     (auto simp: tick_def unwind_def step_def goTo_def nextTick_def emit_def call_fn_def Let_def
           split: list.splits task.splits frame.splits option.splits if_splits)

declare drain.simps [simp del]

subsection \<open>Sequences of operations\<close>

text \<open>
  Everything the generated code, the owner of the control API and the host can do to a
  machine: the methods of the file, a call of a closure of \<open>thenTo\<close>, one tick of the
  queue, and the generated code installing or assigning its state variables.
\<close>

datatype op =
    Start | Step | GoTo int | ThenTo int | Invoke nat "val list" | Callback "val list"
  | Unwind | UnwindNextTick | PushCleanupAction nat "val list" | PushCleanupStep int
  | PushErrorStep int | PushPhi int | Phi | JumpTableOp int "val list list option" "int list"
  | JumpToCase nat val | Abort val | Tick | SetStateVars "val list option"

fun apply_op :: "op \<Rightarrow> StateMachine \<Rightarrow> (error \<times> StateMachine) + StateMachine" where
  "apply_op Start sm = Inr (start sm)"
| "apply_op Step sm = Inr (step sm)"
| "apply_op (GoTo i) sm = Inr (goTo (Num (Fin i)) sm)"
| "apply_op (ThenTo i) sm = Inr (snd (thenTo i sm))"
| "apply_op (Invoke k as) sm = Inr (invoke k as sm)"
| "apply_op (Callback as) sm = Inr (callback as sm)"
| "apply_op Unwind sm = unwind sm"
| "apply_op UnwindNextTick sm = Inr (unwindNextTick sm)"
| "apply_op (PushCleanupAction f as) sm = Inr (pushCleanupAction f as sm)"
| "apply_op (PushCleanupStep i) sm = pushCleanupStep i sm"
| "apply_op (PushErrorStep i) sm = Inr (pushErrorStep i sm)"
| "apply_op (PushPhi i) sm = Inr (pushPhi (Num (Fin i)) sm)"
| "apply_op Phi sm = Inr (phi' sm)"
| "apply_op (JumpTableOp i cs bs) sm =
     (case jumpTable i cs bs sm of Inl e \<Rightarrow> Inl e | Inr (r, sm') \<Rightarrow> Inr sm')"
| "apply_op (JumpToCase r v) sm =
     (if r < length (tables sm) then jumpToCase (tables sm ! r) v sm else Inr sm)"
| "apply_op (Abort e) sm = Inr (abort e sm)"
| "apply_op Tick sm = tick sm"
| "apply_op (SetStateVars vs) sm = Inr (sm\<lparr> stateVars := vs \<rparr>)"

text \<open>The machine after an operation, whether it returned or threw.\<close>

fun after :: "(error \<times> StateMachine) + StateMachine \<Rightarrow> StateMachine" where
  "after (Inl (e, sm)) = sm"
| "after (Inr sm) = sm"

definition exec :: "op list \<Rightarrow> StateMachine \<Rightarrow> StateMachine" where
  "exec ops sm = foldl (\<lambda>s x. after (apply_op x s)) sm ops"

subsection \<open>What the claims speak of\<close>

text \<open>The calls of the completion callback in a trace.\<close>

fun is_final :: "event \<Rightarrow> bool" where
  "is_final (FinalCallback as) = True"
| "is_final _ = False"

definition final_calls :: "StateMachine \<Rightarrow> event list" where
  "final_calls sm = filter is_final (trace sm)"

text \<open>The calls made by the unwinding: the cleanup actions and the completion callback.\<close>

fun is_cleanup :: "event \<Rightarrow> bool" where
  "is_cleanup (CleanupRun f as) = True"
| "is_cleanup _ = False"

definition unwind_calls :: "StateMachine \<Rightarrow> event list" where
  "unwind_calls sm = filter (\<lambda>e. is_cleanup e \<or> is_final e) (trace sm)"

text \<open>
  The entry step of block \<open>k\<close> in the words of the specification:
  \<open>id + 1 + \<Sigma>(1 + blockSizes[j])\<close> over \<open>j < k\<close>, in the integers.
\<close>

definition spec_entry :: "int \<Rightarrow> int list \<Rightarrow> nat \<Rightarrow> int" where
  "spec_entry i bs k = i + 1 + sum_list (map (\<lambda>b. 1 + b) (take k bs))"

text \<open>The value of \<open>sum\<close> when the outer loop reaches block \<open>k\<close>, from its first value.\<close>

definition sum_at :: "number \<Rightarrow> int list \<Rightarrow> nat \<Rightarrow> number" where
  "sum_at s bs k = foldl (\<lambda>s b. js_plus s (js_plus (Fin 1) (fl b))) s (take k bs)"

text \<open>
  The entry of block \<open>k\<close> as the constructor computes it, in double precision:
  \<open>id + 1\<close> for block 0, and \<open>1 + blockSizes[k]\<close> more for block \<open>k + 1\<close> than for block \<open>k\<close>.
\<close>

definition entry :: "int \<Rightarrow> int list \<Rightarrow> nat \<Rightarrow> number" where
  "entry i bs k = sum_at (js_plus (fl i) (Fin 1)) bs k"

text \<open>An integer that is a JavaScript number as it stands.\<close>

definition representable :: "int \<Rightarrow> bool" where
  "representable n = (fl n = Fin n)"

text \<open>
  No addition that the constructor makes up to the entry of block \<open>k\<close> rounds: the id,
  the block sizes before \<open>k\<close>, each \<open>1 + blockSizes[j]\<close> and each entry up to \<open>k\<close> are
  JavaScript numbers as they stand.
\<close>

definition exact_upto :: "int \<Rightarrow> int list \<Rightarrow> nat \<Rightarrow> bool" where
  "exact_upto i bs k =
     (representable i
      \<and> list_all (\<lambda>b. representable b \<and> representable (1 + b)) (take k bs)
      \<and> list_all (\<lambda>j. representable (spec_entry i bs j)) [0..<Suc k])"

text \<open>The property names of the case values of a block.\<close>

definition names :: "val list \<Rightarrow> string set" where
  "names ci = to_string ` set ci"

text \<open>
  The stores \<open>this.stepIDs[ci[j]] = sum\<close> that the constructor makes, in their order: block
  by block, the case values of a block from the first to the last, each under its
  property name and with the entry of its block.
\<close>

definition assignments :: "int \<Rightarrow> val list list \<Rightarrow> int list \<Rightarrow> (string \<times> number) list" where
  "assignments i cs bs =
     concat (map (\<lambda>k. map (\<lambda>c. (to_string c, entry i bs k)) (cs ! k)) [0..<length bs])"

text \<open>
  \<open>p\<close> is an array index that is not below the number \<open>x\<close>. Such an element is deleted
  when \<open>x\<close> is stored under \<open>length\<close>, and a store under such a name raises a length
  \<open>x\<close>.
\<close>

definition index_from :: "number \<Rightarrow> string \<Rightarrow> bool" where
  "index_from x p =
     (case x of
        Fin n \<Rightarrow> (case index_of p of None \<Rightarrow> False | Some m \<Rightarrow> n \<le> int m)
      | _ \<Rightarrow> False)"

text \<open>A sequence of stores into an array, up to the first that throws.\<close>

fun store :: "(string \<times> number) list \<Rightarrow> JSArray \<Rightarrow> error + JSArray" where
  "store [] a = Inr a"
| "store ((k, x) # xs) a =
     (case array_set k x a of Inl e \<Rightarrow> Inl e | Inr a' \<Rightarrow> store xs a')"

text \<open>
  What decides whether the unwinding after \<open>callback\<close> passes a frame without giving
  control to the step function: a cleanup action always does, an error step does when
  \<open>err\<close> is not set, a cleanup step never does.
\<close>

fun passes :: "val \<Rightarrow> frame \<Rightarrow> bool" where
  "passes e (CleanupAction f as) = True"
| "passes e (ErrorStep i) = (\<not> truthy e)"
| "passes e (CleanupStep i snapshot) = False"

text \<open>The cleanup actions that the unwinding of a stack runs, top first.\<close>

fun run_of :: "frame \<Rightarrow> event list" where
  "run_of (CleanupAction f as) = [CleanupRun f as]"
| "run_of _ = []"

definition runs :: "frame list \<Rightarrow> event list" where
  "runs fs = concat (map run_of (rev fs))"

section \<open>Properties\<close>

lemmas sm_defs = step_def goTo_def start_def thenTo_def invoke_def callback_def unwind_def
  unwindNextTick_def pushCleanupAction_def pushCleanupStep_def pushErrorStep_def pushPhi_def
  phi'_def jumpToCase_def jumpTable_def abort_def tick_def nextTick_def emit_def call_fn_def

lemmas new_defs = new_StateMachine_def new_State_def

lemmas sm_splits = list.splits task.splits frame.splits option.splits sum.splits prod.splits
  if_splits

subsection \<open>Delivery of an abort error\<close>

text \<open>
  C1. With a resumption outstanding and an abort error \<open>e\<close> recorded, the next run of
  \<open>step\<close> and the next call of a continuation should each pass \<open>e\<close> alone to the step
  function and clear \<open>abort_with_error\<close> before it runs. The code does neither in full.
  After \<open>start\<close> and \<open>abort(e)\<close>, the scheduled \<open>step\<close> clears the field first and then
  reads it for the call, so the step function receives \<open>null\<close>. After \<open>thenTo(2)\<close> and
  \<open>abort(e)\<close>, the continuation passes \<open>e\<close> but leaves the field set.
\<close>

theorem abort_error_delivery:
  "trace (exec [Start, Abort (ErrorObj ''boom''), Tick] (new_StateMachine True)) = [FnCall [Null]]
 \<and> abort_with_error (state (exec [Start, Abort (ErrorObj ''boom''), Tick] (new_StateMachine True)))
      = Null
 \<and> trace (exec [ThenTo 2, Abort (ErrorObj ''boom''), Invoke 0 [Null, Str ''data'']]
            (new_StateMachine True)) = [FnCall [ErrorObj ''boom'']]
 \<and> abort_with_error (state (exec [ThenTo 2, Abort (ErrorObj ''boom''), Invoke 0 [Null, Str ''data'']]
            (new_StateMachine True))) = ErrorObj ''boom''"
  by (simp add: exec_def sm_defs new_defs Let_def)

subsection \<open>A continuation called twice\<close>

text \<open>
  C2. A second call of a continuation should be rejected without touching the state or
  entering the step function. In the code the second call decrements \<open>waiting\<close> again
  before it looks at \<open>done\<close>: one \<open>thenTo(3)\<close> and two calls leave \<open>waiting\<close> at -1. And the
  test of \<open>abort_with_error\<close> comes before the test of \<open>done\<close>: when an abort is recorded
  between the two calls, the second call enters the step function with the abort error.
\<close>

theorem repeated_continuation:
  "waiting (state (exec [ThenTo 3, Invoke 0 [Null, Str ''a''], Invoke 0 [Null, Str ''a'']]
                    (new_StateMachine True))) = - 1
 \<and> trace (exec [ThenTo 3, Invoke 0 [Null, Str ''a''], Invoke 0 [Null, Str ''a'']]
                    (new_StateMachine True))
      = [FnCall [Null, Str ''a''], ConsoleError ''Callback called repeatedly!'']
 \<and> trace (exec [ThenTo 3, ThenTo 4, Invoke 0 [Null, Str ''a''], Abort (ErrorObj ''boom''),
                 Invoke 0 [Null, Str ''a'']] (new_StateMachine True))
      = [FnCall [Null, Str ''a''], FnCall [ErrorObj ''boom'']]"
  by (simp add: exec_def sm_defs new_defs Let_def)

subsection \<open>Registering an error step\<close>

lemma pushErrorStep_installed:
  "installed_catches (state sm) i = Some True \<Longrightarrow> pushErrorStep i sm = sm"
  by (simp add: pushErrorStep_def)

lemma pushErrorStep_fresh:
  "installed_catches (state sm) i \<noteq> Some True \<Longrightarrow>
     unwinding (state (pushErrorStep i sm)) = unwinding (state sm) @ [ErrorStep i]
   \<and> installed_catches (state (pushErrorStep i sm)) i = Some True"
  by (simp add: pushErrorStep_def)

lemma pushErrorStep_funpow:
  "installed_catches (state sm) i = Some True \<Longrightarrow> (pushErrorStep i ^^ n) sm = sm"
  by (induction n) (simp_all add: pushErrorStep_installed)

text \<open>
  C8. On a machine where step \<open>i\<close> is not yet recorded in \<open>installed_catches\<close> and has no
  error frame on the unwind stack, any number \<open>n > 0\<close> of calls \<open>pushErrorStep(i)\<close> leaves
  exactly one error frame for \<open>i\<close> on the stack; and a call for a step that is recorded
  changes nothing, so a frame is pushed only for a step that is not recorded.
\<close>

theorem pushErrorStep_once:
  assumes "installed_catches (state sm) i \<noteq> Some True"
    and "ErrorStep i \<notin> set (unwinding (state sm))"
    and "0 < n"
  shows "count_list (unwinding (state ((pushErrorStep i ^^ n) sm))) (ErrorStep i) = 1
       \<and> (installed_catches (state sm') j = Some True \<longrightarrow> pushErrorStep j sm' = sm')"
proof -
  from \<open>0 < n\<close> obtain m where n: "n = Suc m" by (cases n) auto
  have "(pushErrorStep i ^^ n) sm = (pushErrorStep i ^^ m) (pushErrorStep i sm)"
    unfolding n by (simp add: funpow_swap1)
  also have "\<dots> = pushErrorStep i sm"
    using assms(1) by (simp add: pushErrorStep_funpow pushErrorStep_fresh)
  finally show ?thesis
    using assms(1,2) by (simp add: pushErrorStep_fresh count_list_0_iff pushErrorStep_installed)
qed

theorem pushErrorStep_once_witness:
  "installed_catches (state (new_StateMachine True)) 5 \<noteq> Some True
 \<and> ErrorStep 5 \<notin> set (unwinding (state (new_StateMachine True)))
 \<and> count_list (unwinding (state (pushErrorStep 5 (pushErrorStep 5 (new_StateMachine True)))))
      (ErrorStep 5) = 1
 \<and> pushErrorStep 5 (pushErrorStep 5 (new_StateMachine True)) = pushErrorStep 5 (new_StateMachine True)"
  using pushErrorStep_once [of "new_StateMachine True" 5 2 "pushErrorStep 5 (new_StateMachine True)" 5]
  by (simp add: new_defs numeral_2_eq_2 pushErrorStep_def)

subsection \<open>What no operation undoes\<close>

lemma installed_apply_op:
  "installed_catches (state sm) i = Some True \<Longrightarrow>
   installed_catches (state (after (apply_op x sm))) i = Some True"
  by (cases x) (auto simp: sm_defs Let_def split: sm_splits)

lemma installed_exec:
  "installed_catches (state sm) i = Some True \<Longrightarrow>
   installed_catches (state (exec ops sm)) i = Some True"
  unfolding exec_def by (induction ops arbitrary: sm) (simp_all add: installed_apply_op)

lemma finished_apply_op:
  "isFinished (state sm) \<Longrightarrow>
   isFinished (state (after (apply_op x sm))) \<and> final_calls (after (apply_op x sm)) = final_calls sm"
  by (cases x) (auto simp: sm_defs final_calls_def Let_def split: sm_splits)

lemma finished_exec:
  "isFinished (state sm) \<Longrightarrow>
   isFinished (state (exec ops sm)) \<and> final_calls (exec ops sm) = final_calls sm"
  unfolding exec_def by (induction ops arbitrary: sm) (simp_all add: finished_apply_op)

lemma pushErrorStep_records: "installed_catches (state (pushErrorStep i sm)) i = Some True"
  by (simp add: pushErrorStep_def)

text \<open>
  C10. Once \<open>pushErrorStep(i)\<close> has been called, step \<open>i\<close> stays recorded in
  \<open>installed_catches\<close> through every later sequence of operations on the machine (ticks
  that pop the frame included), and every later \<open>pushErrorStep(i)\<close> changes nothing.
\<close>

theorem installed_catches_never_cleared:
  "installed_catches (state (exec ops (pushErrorStep i sm))) i = Some True
 \<and> pushErrorStep i (exec ops (pushErrorStep i sm)) = exec ops (pushErrorStep i sm)"
  by (simp add: pushErrorStep_records installed_exec pushErrorStep_installed)

text \<open>
  The frame for step 5 is popped by the unwinding that follows \<open>callback(e)\<close>, the handler
  is scheduled, and a new \<open>pushErrorStep(5)\<close> still registers nothing.
\<close>

theorem installed_catches_never_cleared_witness:
  "unwinding (state (exec [Callback [ErrorObj ''e''], Tick] (pushErrorStep 5 (new_StateMachine True)))) = []
 \<and> pushErrorStep 5 (exec [Callback [ErrorObj ''e''], Tick] (pushErrorStep 5 (new_StateMachine True)))
     = exec [Callback [ErrorObj ''e''], Tick] (pushErrorStep 5 (new_StateMachine True))"
  using installed_catches_never_cleared
          [of "[Callback [ErrorObj ''e''], Tick]" 5 "new_StateMachine True"]
  by (simp add: exec_def sm_defs new_defs Let_def)

subsection \<open>The layout of a jump table\<close>

lemma array_set_other:
  "array_set k x a = Inr a' \<Longrightarrow> k \<noteq> ''length'' \<Longrightarrow> p \<noteq> k \<Longrightarrow> elems a' p = elems a p"
  by (auto simp: array_set_def split: if_splits option.splits)

lemma array_set_same:
  "array_set k x a = Inr a' \<Longrightarrow> k \<noteq> ''length'' \<Longrightarrow> k \<noteq> ''__proto__'' \<Longrightarrow> elems a' k = Some x"
  by (auto simp: array_set_def split: if_splits option.splits)

lemma array_set_length_keeps:
  "array_set ''length'' x a = Inr a' \<Longrightarrow> \<not> index_from x p \<Longrightarrow> elems a' p = elems a p"
  by (auto simp: array_set_def index_from_def split: if_splits number.splits option.splits)

lemma array_set_total: "k \<noteq> ''length'' \<Longrightarrow> \<exists>a'. array_set k x a = Inr a'"
  by (auto simp: array_set_def split: option.splits)

lemma store_append:
  "store (xs @ ys) a = (case store xs a of Inl e \<Rightarrow> Inl e | Inr a' \<Rightarrow> store ys a')"
  by (induction xs arbitrary: a) (auto split: sum.splits)

text \<open>An element stays while nothing is stored under its name and no length deletes it.\<close>

lemma store_keeps:
  "store post a = Inr a' \<Longrightarrow> p \<noteq> ''length'' \<Longrightarrow> p \<notin> fst ` set post \<Longrightarrow>
   \<forall>s'. (''length'', s') \<in> set post \<longrightarrow> \<not> index_from s' p \<Longrightarrow>
   elems a' p = elems a p"
proof (induction post arbitrary: a)
  case Nil
  then show ?case by simp
next
  case (Cons kx post)
  obtain k x where kx: "kx = (k, x)" by (cases kx)
  from Cons.prems(1) kx obtain a1 where a1: "array_set k x a = Inr a1"
    and r: "store post a1 = Inr a'"
    by (auto split: sum.splits)
  from Cons.prems(3) kx have pk: "p \<noteq> k" and pp: "p \<notin> fst ` set post" by auto
  from Cons.prems(4) have l: "\<forall>s'. (''length'', s') \<in> set post \<longrightarrow> \<not> index_from s' p" by auto
  have "elems a1 p = elems a p"
  proof (cases "k = ''length''")
    case True
    with Cons.prems(4) kx have "\<not> index_from x p" by auto
    with a1 True show ?thesis by (simp add: array_set_length_keeps)
  next
    case False
    from array_set_other [OF a1 False pk] show ?thesis .
  qed
  with Cons.IH [OF r Cons.prems(2) pp l] show ?case by simp
qed

text \<open>What is read under a name after a sequence of stores, from the last store under it.\<close>

lemma store_read:
  assumes "store (pre @ (p, s) # post) a = Inr a'" and "p \<notin> fst ` set post"
    and "p \<noteq> ''length''" and "p \<noteq> ''__proto__''"
    and "\<forall>s'. (''length'', s') \<in> set post \<longrightarrow> \<not> index_from s' p"
  shows "array_get proto p a' = Num s"
proof -
  from assms(1) obtain a0 a1 where a1: "array_set p s a0 = Inr a1"
    and r: "store post a1 = Inr a'"
    by (auto simp: store_append split: sum.splits)
  from store_keeps [OF r assms(3,2,5)] array_set_same [OF a1 assms(3,4)]
  have "elems a' p = Some s" by simp
  with assms(3) show ?thesis by (simp add: array_get_def)
qed

lemma assign_block_store: "assign_block ci s a = store (map (\<lambda>c. (to_string c, s)) ci) a"
  by (induction ci arbitrary: a) (auto split: sum.splits)

lemma sum_at_Cons: "sum_at s (b # bs) (Suc k) = sum_at (js_plus s (js_plus (Fin 1) (fl b))) bs k"
  by (simp add: sum_at_def)

text \<open>The loops of the constructor make the stores of \<open>assignments\<close>, in that order.\<close>

lemma layout_store:
  "layout cs bs s a = Inr (a', s') \<Longrightarrow>
   store (concat (map (\<lambda>k. map (\<lambda>c. (to_string c, sum_at s bs k)) (cs ! k)) [0..<length bs])) a
     = Inr a'"
proof (induction cs bs s a rule: layout.induct)
  case (3 ci cs b bs s a)
  from "3.prems" obtain a1 where a1: "assign_block ci s a = Inr a1"
    and r: "layout cs bs (js_plus s (js_plus (Fin 1) (fl b))) a1 = Inr (a', s')"
    by (auto split: sum.splits)
  have "[0..<length (b # bs)] = 0 # map Suc [0..<length bs]"
    by (simp add: upt_conv_Cons map_Suc_upt del: upt_Suc)
  then have "concat (map (\<lambda>k. map (\<lambda>c. (to_string c, sum_at s (b # bs) k)) ((ci # cs) ! k))
                 [0..<length (b # bs)])
      = map (\<lambda>c. (to_string c, s)) ci
        @ concat (map (\<lambda>k. map (\<lambda>c. (to_string c,
                     sum_at (js_plus s (js_plus (Fin 1) (fl b))) bs k)) (cs ! k)) [0..<length bs])"
    by (simp add: sum_at_Cons comp_def) (simp add: sum_at_def)
  with "3.IH" [OF a1 r] a1 show ?case
    by (simp add: store_append assign_block_store)
qed auto

lemma assign_block_total: "''length'' \<notin> names ci \<Longrightarrow> \<exists>a'. assign_block ci s a = Inr a'"
proof (induction ci arbitrary: a)
  case Nil
  show ?case by simp
next
  case (Cons c ci)
  from Cons.prems have c: "to_string c \<noteq> ''length''" and ci: "''length'' \<notin> names ci"
    by (auto simp: names_def)
  from array_set_total [OF c] obtain a1 where "array_set (to_string c) s a = Inr a1" by blast
  with Cons.IH [OF ci, of a1] show ?case by simp
qed

lemma layout_total:
  "length bs \<le> length cs \<Longrightarrow> \<forall>j<length bs. ''length'' \<notin> names (cs ! j) \<Longrightarrow>
   \<exists>r. layout cs bs s a = Inr r"
proof (induction cs bs s a rule: layout.induct)
  case (3 ci cs b bs s a)
  from "3.prems"(2) have "''length'' \<notin> names ci" by auto
  from assign_block_total [OF this] obtain a1 where a1: "assign_block ci s a = Inr a1" by blast
  from "3.prems" have "length bs \<le> length cs" "\<forall>j<length bs. ''length'' \<notin> names (cs ! j)"
    by auto
  from "3.IH" [OF a1 this] a1 show ?case by simp
qed auto

lemma layout_sum:
  "layout cs bs s a = Inr (a', s') \<Longrightarrow> s' = sum_at s bs (length bs)"
  by (induction cs bs s a rule: layout.induct) (auto simp: sum_at_def split: sum.splits)

lemma spec_entry_Suc:
  "k < length bs \<Longrightarrow> spec_entry i bs (Suc k) = spec_entry i bs k + (1 + bs ! k)"
  by (simp add: spec_entry_def take_Suc_conv_app_nth)

lemma exact_upto_Suc:
  "k < length bs \<Longrightarrow> exact_upto i bs (Suc k) \<Longrightarrow>
   exact_upto i bs k \<and> representable (bs ! k) \<and> representable (1 + bs ! k)
   \<and> representable (spec_entry i bs (Suc k))"
  by (simp add: exact_upto_def take_Suc_conv_app_nth)

lemma entry_exact:
  "k \<le> length bs \<Longrightarrow> exact_upto i bs k \<Longrightarrow> entry i bs k = Fin (spec_entry i bs k)"
proof (induction k)
  case 0
  then show ?case
    by (simp add: entry_def sum_at_def exact_upto_def spec_entry_def representable_def)
next
  case (Suc k)
  then have k: "k < length bs" by simp
  from exact_upto_Suc [OF k Suc.prems(2)]
  have e: "exact_upto i bs k" "fl (bs ! k) = Fin (bs ! k)" "fl (1 + bs ! k) = Fin (1 + bs ! k)"
    "fl (spec_entry i bs k + (1 + bs ! k)) = Fin (spec_entry i bs k + (1 + bs ! k))"
    by (simp_all add: representable_def spec_entry_Suc [OF k])
  from Suc.IH e(1) k
  have "sum_at (js_plus (fl i) (Fin 1)) bs k = Fin (spec_entry i bs k)" by (simp add: entry_def)
  then show ?case
    using e(2,3,4) k by (simp add: entry_def sum_at_def take_Suc_conv_app_nth spec_entry_Suc)
qed

lemma small_representable: "\<bar>n\<bar> < 2 ^ 53 \<Longrightarrow> representable n"
  by (simp add: representable_def fl_def)

text \<open>
  C4, as the code has it, for an integer id and integer block sizes. The table is built
  when \<open>cases\<close> has a block for every block size and no case value of these blocks has the
  property name \<open>length\<close>. The entry of block \<open>k\<close> that the constructor computes in double
  precision is \<open>id + 1\<close> plus the sum of \<open>1 + blockSizes[j]\<close> over \<open>j < k\<close> when none of the
  additions up to block \<open>k\<close> rounds. In a table that is built, \<open>beyondID\<close> is the entry
  computed after the last block. And for the last store \<open>(p, s)\<close> that the constructor makes
  under a property name \<open>p\<close>, \<open>s\<close> being the entry of the block of that case value: when
  \<open>p\<close> is neither \<open>length\<close> nor \<open>__proto__\<close> and no later store under \<open>length\<close> deletes the
  element \<open>p\<close>, what is read under \<open>p\<close> is \<open>s\<close>.
\<close>

theorem JumpTable_layout:
  "(length bs \<le> length cs \<and> (\<forall>j<length bs. ''length'' \<notin> names (cs ! j))
      \<longrightarrow> (\<exists>jt. JumpTable i cs bs = Inr jt))
 \<and> (\<forall>k\<le>length bs. exact_upto i bs k \<longrightarrow> entry i bs k = Fin (spec_entry i bs k))
 \<and> (\<forall>jt. JumpTable i cs bs = Inr jt \<longrightarrow>
      beyondID jt = entry i bs (length bs)
    \<and> (\<forall>pre p s post.
          assignments i cs bs = pre @ (p, s) # post \<and> p \<notin> fst ` set post
          \<and> p \<noteq> ''length'' \<and> p \<noteq> ''__proto__''
          \<and> (\<forall>s'. (''length'', s') \<in> set post \<longrightarrow> \<not> index_from s' p)
          \<longrightarrow> array_get proto p (stepIDs jt) = Num s))"
proof -
  have built: "\<exists>jt. JumpTable i cs bs = Inr jt"
    if "length bs \<le> length cs \<and> (\<forall>j<length bs. ''length'' \<notin> names (cs ! j))"
  proof -
    from that obtain r where "layout cs bs (js_plus (fl i) (Fin 1)) empty_array = Inr r"
      using layout_total by blast
    then show ?thesis by (cases r) (simp add: JumpTable_def)
  qed
  have beyond: "beyondID jt = entry i bs (length bs)" if "JumpTable i cs bs = Inr jt" for jt
  proof -
    from that obtain a' where
      "layout cs bs (js_plus (fl i) (Fin 1)) empty_array = Inr (a', beyondID jt)"
      by (auto simp: JumpTable_def split: sum.splits)
    from layout_sum [OF this] show ?thesis by (simp add: entry_def)
  qed
  have stored: "store (assignments i cs bs) empty_array = Inr (stepIDs jt)"
    if "JumpTable i cs bs = Inr jt" for jt
  proof -
    from that obtain s' where
      "layout cs bs (js_plus (fl i) (Fin 1)) empty_array = Inr (stepIDs jt, s')"
      by (auto simp: JumpTable_def split: sum.splits)
    from layout_store [OF this] show ?thesis by (simp add: assignments_def entry_def)
  qed
  have reads: "array_get proto p (stepIDs jt) = Num s"
    if "JumpTable i cs bs = Inr jt"
      and "assignments i cs bs = pre @ (p, s) # post \<and> p \<notin> fst ` set post
           \<and> p \<noteq> ''length'' \<and> p \<noteq> ''__proto__''
           \<and> (\<forall>s'. (''length'', s') \<in> set post \<longrightarrow> \<not> index_from s' p)"
    for jt pre p s post
  proof -
    from stored [OF that(1)] that(2)
    have st: "store (pre @ (p, s) # post) empty_array = Inr (stepIDs jt)" by simp
    from that(2) show ?thesis by (intro store_read [OF st]) simp_all
  qed
  from built entry_exact beyond reads show ?thesis by blast
qed

lemmas js_defs = JumpTable_def array_set_def array_get_def index_of_def digit_val_def
  show_nat.simps digit_def fl_def show_finite_def empty_array_def Let_def

text \<open>
  The table of the specification's scenario, \<open>JumpTable(sm, 10, [[1,2],[3]], [5,7])\<close>;
  the numbers 1, 2 and 3 are read under the names \<open>"1"\<close>, \<open>"2"\<close> and \<open>"3"\<close>.
\<close>

theorem JumpTable_layout_witness:
  "length [5, 7 :: int] \<le> length [[Num (Fin 1), Num (Fin 2)], [Num (Fin 3)]]
 \<and> exact_upto 10 [5, 7] 2
 \<and> JumpTable 10 [[Num (Fin 1), Num (Fin 2)], [Num (Fin 3)]] [5, 7]
      = Inr (projr (JumpTable 10 [[Num (Fin 1), Num (Fin 2)], [Num (Fin 3)]] [5, 7]))
 \<and> assignments 10 [[Num (Fin 1), Num (Fin 2)], [Num (Fin 3)]] [5, 7]
      = [(''1'', Fin 11), (''2'', Fin 11), (''3'', Fin 17)]
 \<and> array_get Array_prototype ''1''
      (stepIDs (projr (JumpTable 10 [[Num (Fin 1), Num (Fin 2)], [Num (Fin 3)]] [5, 7])))
      = Num (Fin 11)
 \<and> array_get Array_prototype ''2''
      (stepIDs (projr (JumpTable 10 [[Num (Fin 1), Num (Fin 2)], [Num (Fin 3)]] [5, 7])))
      = Num (Fin 11)
 \<and> array_get Array_prototype ''3''
      (stepIDs (projr (JumpTable 10 [[Num (Fin 1), Num (Fin 2)], [Num (Fin 3)]] [5, 7])))
      = Num (Fin 17)
 \<and> beyondID (projr (JumpTable 10 [[Num (Fin 1), Num (Fin 2)], [Num (Fin 3)]] [5, 7])) = Fin 25"
proof -
  let ?cs = "[[Num (Fin 1), Num (Fin 2)], [Num (Fin 3)]]"
  let ?jt = "projr (JumpTable 10 ?cs [5, 7])"
  have jt: "JumpTable 10 ?cs [5, 7] = Inr ?jt"
    by (simp add: js_defs)
  have ex: "exact_upto 10 [5, 7] 2"
    by (simp add: exact_upto_def representable_def spec_entry_def fl_def upt_rec)
  have a: "assignments 10 ?cs [5, 7] = [(''1'', Fin 11), (''2'', Fin 11), (''3'', Fin 17)]"
    by (simp add: assignments_def entry_def sum_at_def js_defs upt_rec)
  note T = JumpTable_layout [of "[5, 7]" ?cs 10 Array_prototype]
  from T ex have "entry 10 [5, 7] 2 = Fin (spec_entry 10 [5, 7] 2)"
    by simp
  moreover from T jt have "beyondID ?jt = entry 10 [5, 7] (length [5, 7 :: int])"
    by blast
  ultimately have b: "beyondID ?jt = Fin 25"
    by (simp add: spec_entry_def numeral_2_eq_2)
  from T jt have r: "\<forall>pre p s post.
      assignments 10 ?cs [5, 7] = pre @ (p, s) # post \<and> p \<notin> fst ` set post
      \<and> p \<noteq> ''length'' \<and> p \<noteq> ''__proto__''
      \<and> (\<forall>s'. (''length'', s') \<in> set post \<longrightarrow> \<not> index_from s' p)
      \<longrightarrow> array_get Array_prototype p (stepIDs ?jt) = Num s"
    by blast
  from r [rule_format, of "[]" "''1''" "Fin 11" "[(''2'', Fin 11), (''3'', Fin 17)]"] a
  have r1: "array_get Array_prototype ''1'' (stepIDs ?jt) = Num (Fin 11)"
    by simp
  from r [rule_format, of "[(''1'', Fin 11)]" "''2''" "Fin 11" "[(''3'', Fin 17)]"] a
  have r2: "array_get Array_prototype ''2'' (stepIDs ?jt) = Num (Fin 11)"
    by simp
  from r [rule_format, of "[(''1'', Fin 11), (''2'', Fin 11)]" "''3''" "Fin 17" "[]"] a
  have r3: "array_get Array_prototype ''3'' (stepIDs ?jt) = Num (Fin 17)"
    by simp
  from jt ex a b r1 r2 r3 show ?thesis by simp
qed

text \<open>
  C4, as the specification states it, fails in four ways. A case value listed in two
  blocks keeps the entry of the later one: in \<open>JumpTable(sm, 10, [[1],[1]], [5,7])\<close> the value
  1 is a case value of block 0, whose entry step is 11, and \<open>stepIDs[1]\<close> is 17. The sums
  are double precision: in \<open>JumpTable(sm, 2^53, [[1],[2]], [0,0])\<close> the additions round and
  \<open>beyondID\<close> is \<open>2^53\<close>, not \<open>2^53 + 3\<close>. The case value \<open>"length"\<close> sets the length of the
  array: in \<open>JumpTable(sm, 0, [[5],["length"]], [1,1])\<close> the entry of 5 is deleted. And the
  case value \<open>"__proto__"\<close> stores nothing: in \<open>JumpTable(sm, 0, [["__proto__"]], [1])\<close>
  what is read under it is the prototype.
\<close>

theorem JumpTable_entries_differ:
  "Num (Fin 1) \<in> set ([[Num (Fin 1)], [Num (Fin 1)]] ! 0)
 \<and> spec_entry 10 [5, 7] 0 = 11
 \<and> \<not> isl (JumpTable 10 [[Num (Fin 1)], [Num (Fin 1)]] [5, 7])
 \<and> array_get Array_prototype (to_string (Num (Fin 1)))
      (stepIDs (projr (JumpTable 10 [[Num (Fin 1)], [Num (Fin 1)]] [5, 7]))) = Num (Fin 17)
 \<and> spec_entry (2 ^ 53) [0, 0] 2 = 2 ^ 53 + 3
 \<and> \<not> isl (JumpTable (2 ^ 53) [[Num (Fin 1)], [Num (Fin 2)]] [0, 0])
 \<and> beyondID (projr (JumpTable (2 ^ 53) [[Num (Fin 1)], [Num (Fin 2)]] [0, 0])) = Fin (2 ^ 53)
 \<and> spec_entry 0 [1, 1] 0 = 1
 \<and> \<not> isl (JumpTable 0 [[Num (Fin 5)], [Str ''length'']] [1, 1])
 \<and> array_get Array_prototype (to_string (Num (Fin 5)))
      (stepIDs (projr (JumpTable 0 [[Num (Fin 5)], [Str ''length'']] [1, 1]))) = Undefined
 \<and> spec_entry 0 [1] 0 = 1
 \<and> \<not> isl (JumpTable 0 [[Str ''__proto__'']] [1])
 \<and> array_get Array_prototype (to_string (Str ''__proto__''))
      (stepIDs (projr (JumpTable 0 [[Str ''__proto__'']] [1]))) = Obj []"
  by (simp add: js_defs spec_entry_def bits.simps Array_prototype_def)

subsection \<open>An unhandled case\<close>

text \<open>What the code does for a value under whose name the array has nothing to read.\<close>

lemma jumpToCase_undefined:
  "array_get (arrayPrototype sm) (to_string v) (stepIDs jt) = Undefined \<Longrightarrow>
   jumpToCase jt v sm =
     Inl (Error (''Unhandled case '' @ [CHR 0x27] @ to_string v @ [CHR 0x27]
                   @ '' at step '' @ to_string (Num (jt_id jt))),
          pushPhi (Num (beyondID jt)) sm)"
  by (simp add: jumpToCase_def pushPhi_def Let_def)

text \<open>
  C5. A value that is mapped to no block should make \<open>jumpToCase\<close> throw and leave
  \<open>waiting\<close> and \<open>id\<close> alone. The code reads \<open>this.stepIDs[caseVal]\<close> from an array, which
  has a length and inherits the properties of its prototypes. In the table
  \<open>JumpTable(sm, 10, [[1,2],[3]], [5,7])\<close> neither \<open>"length"\<close> nor \<open>"push"\<close> is a case value;
  \<open>jumpToCase("length")\<close> reads the length 4 of the array and goes to step 4, and
  \<open>jumpToCase("push")\<close> reads the inherited function and goes to it: nothing is thrown,
  \<open>waiting\<close> is incremented and \<open>id\<close> is overwritten.
\<close>

theorem jumpToCase_unmapped_name:
  "\<not> isl (JumpTable 10 [[Num (Fin 1), Num (Fin 2)], [Num (Fin 3)]] [5, 7])
 \<and> Str ''length'' \<notin> set [Num (Fin 1), Num (Fin 2)] \<and> Str ''length'' \<notin> set [Num (Fin 3)]
 \<and> jumpToCase (projr (JumpTable 10 [[Num (Fin 1), Num (Fin 2)], [Num (Fin 3)]] [5, 7]))
      (Str ''length'') (new_StateMachine True)
    = Inr (goTo (Num (Fin 4)) (pushPhi (Num (Fin 25)) (new_StateMachine True)))
 \<and> waiting (state (new_StateMachine True)) = 0
 \<and> waiting (state (goTo (Num (Fin 4)) (pushPhi (Num (Fin 25)) (new_StateMachine True)))) = 1
 \<and> id' (state (new_StateMachine True)) = Num (Fin 0)
 \<and> id' (state (goTo (Num (Fin 4)) (pushPhi (Num (Fin 25)) (new_StateMachine True))))
      = Num (Fin 4)
 \<and> jumpToCase (projr (JumpTable 10 [[Num (Fin 1), Num (Fin 2)], [Num (Fin 3)]] [5, 7]))
      (Str ''push'') (new_StateMachine True)
    = Inr (goTo (native ''push'') (pushPhi (Num (Fin 25)) (new_StateMachine True)))"
  by (simp add: js_defs jumpToCase_def goTo_def pushPhi_def nextTick_def new_defs
        Array_prototype_def native_def)

subsection \<open>The cache of jump tables\<close>

text \<open>
  C9, as the code has it. A request without \<open>cases\<close> returns what the cache holds for the
  branch site and constructs nothing. A request with \<open>cases\<close> runs the constructor on every
  call, whatever the cache holds. When the constructor returns, the new table is stored
  and the cache is made to refer to it, so that a request without \<open>cases\<close> made after it
  returns that table. When the constructor throws, the request throws, and the tables and
  the cache are as before.
\<close>

theorem jumpTable_cache:
  "jumpTable i None bs' sm = Inr (cachedJumpTable sm i, sm)
 \<and> (\<forall>jt. JumpTable i cs bs = Inr jt \<longrightarrow>
      (\<exists>sm'. jumpTable i (Some cs) bs sm = Inr (Some (length (tables sm)), sm')
         \<and> tables sm' = tables sm @ [jt]
         \<and> cachedJumpTable sm' = (cachedJumpTable sm)(i \<mapsto> length (tables sm))
         \<and> jumpTable i None bs' sm' = Inr (Some (length (tables sm)), sm')))
 \<and> (\<forall>e. JumpTable i cs bs = Inl e \<longrightarrow>
      (\<exists>sm'. jumpTable i (Some cs) bs sm = Inl (e, sm')
         \<and> tables sm' = tables sm
         \<and> cachedJumpTable sm' = cachedJumpTable sm))"
  by (simp add: jumpTable_def Let_def emit_def)

text \<open>
  A request that builds the table of branch site 7, the request without \<open>cases\<close> after it,
  and a request whose \<open>cases\<close> are one block short, which throws.
\<close>

theorem jumpTable_cache_witness:
  "\<not> isl (JumpTable 7 [[Num (Fin 1)], [Num (Fin 2)]] [3, 4])
 \<and> jumpTable 7 None [] (new_StateMachine True) = Inr (None, new_StateMachine True)
 \<and> cachedJumpTable
      (exec [JumpTableOp 7 (Some [[Num (Fin 1)], [Num (Fin 2)]]) [3, 4]] (new_StateMachine True)) 7
      = Some 0
 \<and> jumpTable 7 None []
      (exec [JumpTableOp 7 (Some [[Num (Fin 1)], [Num (Fin 2)]]) [3, 4]] (new_StateMachine True))
      = Inr (Some 0,
          exec [JumpTableOp 7 (Some [[Num (Fin 1)], [Num (Fin 2)]]) [3, 4]] (new_StateMachine True))
 \<and> JumpTable 7 [[Num (Fin 1)]] [3, 4] = Inl TypeError
 \<and> isl (jumpTable 7 (Some [[Num (Fin 1)]]) [3, 4] (new_StateMachine True))
 \<and> cachedJumpTable (after (apply_op (JumpTableOp 7 (Some [[Num (Fin 1)]]) [3, 4])
      (new_StateMachine True))) 7 = None"
  using jumpTable_cache [of 7 "[]" "new_StateMachine True" "[[Num (Fin 1)], [Num (Fin 2)]]" "[3, 4]"]
    jumpTable_cache [of 7 "[]" "new_StateMachine True" "[[Num (Fin 1)]]" "[3, 4]"]
  by (simp add: exec_def jumpTable_def js_defs emit_def new_defs)

text \<open>
  C9, as the specification states it, fails: the same request made twice for branch site 7
  constructs two tables, and the cache goes from the first to the second.
\<close>

theorem jumpTable_rebuilt:
  "cachedJumpTable
     (exec [JumpTableOp 7 (Some [[Num (Fin 1)], [Num (Fin 2)]]) [3, 4]] (new_StateMachine True)) 7
     = Some 0
 \<and> length (tables
     (exec [JumpTableOp 7 (Some [[Num (Fin 1)], [Num (Fin 2)]]) [3, 4]] (new_StateMachine True)))
     = 1
 \<and> cachedJumpTable
     (exec [JumpTableOp 7 (Some [[Num (Fin 1)], [Num (Fin 2)]]) [3, 4],
            JumpTableOp 7 (Some [[Num (Fin 1)], [Num (Fin 2)]]) [3, 4]] (new_StateMachine True)) 7
     = Some 1
 \<and> length (tables
     (exec [JumpTableOp 7 (Some [[Num (Fin 1)], [Num (Fin 2)]]) [3, 4],
            JumpTableOp 7 (Some [[Num (Fin 1)], [Num (Fin 2)]]) [3, 4]] (new_StateMachine True)))
     = 2"
  by (simp add: exec_def jumpTable_def js_defs new_defs)

subsection \<open>Running the unwind stack\<close>

text \<open>
  In a run of the queue the step function is called (an event of the trace) and does
  nothing by itself: what it would do is a further operation on the machine.
\<close>

lemma drain_next:
  "nextTickQueue sm \<noteq> [] \<Longrightarrow> tick sm = Inr sm' \<Longrightarrow> drain sm = drain sm'"
  by (subst drain.simps) simp

lemma drain_done: "nextTickQueue sm = [] \<Longrightarrow> drain sm = Inr sm"
  by (subst drain.simps) simp

lemma final_calls_unwind_calls: "final_calls sm = filter is_final (unwind_calls sm)"
  by (simp add: final_calls_def unwind_calls_def conj_commute cong: conj_cong)

lemma drain_finished:
  assumes "unwinding (state sm) = []" "isFinished (state sm)" "nextTickQueue sm = [BoundUnwind]"
  shows "drain sm = Inr (sm\<lparr> nextTickQueue := [] \<rparr>)"
proof -
  have t: "tick sm = Inr (sm\<lparr> nextTickQueue := [] \<rparr>)"
    using assms by (simp add: tick_def unwind_def Let_def)
  show ?thesis
    using drain_next [OF _ t] assms(3) by (simp add: drain_done)
qed

text \<open>A finished machine with an empty unwind stack: the queue runs out, nothing is unwound.\<close>

lemma drain_idle:
  assumes "unwinding (state sm) = []" "isFinished (state sm)"
  shows "\<exists>sm'. drain sm = Inr sm' \<and> unwind_calls sm' = unwind_calls sm \<and> isFinished (state sm')
           \<and> unwinding (state sm') = [] \<and> nextTickQueue sm' = []"
  using assms
proof (induction "nextTickQueue sm" arbitrary: sm)
  case Nil
  then show ?case by (simp add: drain_done)
next
  case (Cons t q)
  from Cons.hyps(2) have q: "nextTickQueue sm = t # q" by simp
  have "\<exists>sm2. tick sm = Inr sm2 \<and> nextTickQueue sm2 = q \<and> unwinding (state sm2) = []
          \<and> isFinished (state sm2) \<and> unwind_calls sm2 = unwind_calls sm"
    using Cons.prems q
    by (cases t)
       (simp_all add: tick_def step_def unwind_def call_fn_def emit_def Let_def unwind_calls_def)
  then obtain sm2 where sm2: "tick sm = Inr sm2" "nextTickQueue sm2 = q"
    "unwinding (state sm2) = []" "isFinished (state sm2)" "unwind_calls sm2 = unwind_calls sm"
    by blast
  from Cons.hyps(1) [of sm2] sm2 drain_next [of sm sm2] q show ?case by simp
qed

lemma run_of_final [simp]: "filter is_final (run_of f) = []"
  by (cases f) simp_all

lemma runs_final [simp]: "filter is_final (runs fs) = []"
  by (induction fs rule: rev_induct) (simp_all add: runs_def)

lemma runs_snoc [simp]: "runs (fs @ [f]) = run_of f @ runs fs"
  by (simp add: runs_def)

lemma runs_Nil [simp]: "runs [] = []"
  by (simp add: runs_def)

lemma runs_actions [simp]:
  "runs (map (\<lambda>(f, as). CleanupAction f as) acts) = map (\<lambda>(f, as). CleanupRun f as) (rev acts)"
  by (induction acts rule: rev_induct) (auto simp: runs_def)

text \<open>One tick of unwinding on a frame that passes.\<close>

lemma tick_passes:
  assumes "nextTickQueue sm = BoundUnwind # q" and "unwinding (state sm) = fs @ [f]"
    and "passes (err (state sm)) f"
  shows "\<exists>sm2. tick sm = Inr sm2 \<and> nextTickQueue sm2 = q @ [BoundUnwind]
           \<and> unwinding (state sm2) = fs \<and> err (state sm2) = err (state sm)
           \<and> args (state sm2) = args (state sm)
           \<and> isFinished (state sm2) = isFinished (state sm)
           \<and> finalCallback sm2 = finalCallback sm
           \<and> trace sm2 = trace sm @ run_of f"
  using assms
  by (cases f) (simp_all add: tick_def unwind_def emit_def nextTick_def Let_def)

text \<open>
  A machine with an unwinding scheduled, whose unwind stack holds only frames that pass:
  by induction on the length of the queue plus the height of the stack.
\<close>

lemma drain_unwind:
  assumes "unwinding (state sm) = fs"
    and "list_all (passes (err (state sm))) fs"
    and "BoundUnwind \<in> set (nextTickQueue sm)"
  shows "\<exists>sm'. drain sm = Inr sm'
           \<and> unwind_calls sm' = unwind_calls sm @ runs fs
                @ (if \<not> isFinished (state sm) \<and> finalCallback sm
                   then [FinalCallback (args (state sm))] else [])
           \<and> isFinished (state sm') \<and> unwinding (state sm') = [] \<and> nextTickQueue sm' = []"
  using assms
proof (induction "length (nextTickQueue sm) + length fs" arbitrary: sm fs rule: less_induct)
  case less
  from less.prems(3) obtain t q where q: "nextTickQueue sm = t # q"
    by (cases "nextTickQueue sm") auto
  show ?case
  proof (cases t)
    case BoundStep
    let ?sm2 = "step (sm\<lparr> nextTickQueue := q \<rparr>)"
    have t: "tick sm = Inr ?sm2"
      using q BoundStep by (simp add: tick_def)
    have p: "nextTickQueue ?sm2 = q" "unwinding (state ?sm2) = fs"
      "err (state ?sm2) = err (state sm)"
      "isFinished (state ?sm2) = isFinished (state sm)" "finalCallback ?sm2 = finalCallback sm"
      "args (state ?sm2) = args (state sm)" "unwind_calls ?sm2 = unwind_calls sm"
      using less.prems
      by (simp_all add: step_def call_fn_def emit_def Let_def unwind_calls_def)
    from less.prems(3) q BoundStep have u: "BoundUnwind \<in> set (nextTickQueue ?sm2)"
      using p(1) by simp
    from less.prems(2) p(3) have l: "list_all (passes (err (state ?sm2))) fs" by simp
    from less.hyps [OF _ p(2) l u] p q drain_next [of sm ?sm2] t
    show ?thesis by (simp cong: if_cong)
  next
    case BoundUnwind
    show ?thesis
    proof (cases fs rule: rev_cases)
      case Nil
      have "\<exists>sm2. tick sm = Inr sm2 \<and> nextTickQueue sm2 = q \<and> unwinding (state sm2) = []
              \<and> isFinished (state sm2)
              \<and> unwind_calls sm2 = unwind_calls sm
                   @ (if \<not> isFinished (state sm) \<and> finalCallback sm
                      then [FinalCallback (args (state sm))] else [])"
        using q BoundUnwind Nil less.prems(1)
        by (simp add: tick_def unwind_def emit_def Let_def unwind_calls_def)
      then obtain sm2 where sm2: "tick sm = Inr sm2" "nextTickQueue sm2 = q"
        "unwinding (state sm2) = []" "isFinished (state sm2)"
        "unwind_calls sm2 = unwind_calls sm
           @ (if \<not> isFinished (state sm) \<and> finalCallback sm
              then [FinalCallback (args (state sm))] else [])"
        by blast
      from drain_idle [OF sm2(3,4)]
      obtain sm' where "drain sm2 = Inr sm'" "unwind_calls sm' = unwind_calls sm2"
        "isFinished (state sm')" "unwinding (state sm') = []" "nextTickQueue sm' = []"
        by auto
      with drain_next [of sm sm2] sm2 q Nil show ?thesis by simp
    next
      case (snoc fs' f)
      from less.prems(2) snoc have pf: "passes (err (state sm)) f"
        and pfs: "list_all (passes (err (state sm))) fs'"
        by simp_all
      from tick_passes [of sm q fs' f] q BoundUnwind less.prems(1) snoc pf
      obtain sm2 where sm2: "tick sm = Inr sm2" "nextTickQueue sm2 = q @ [BoundUnwind]"
        "unwinding (state sm2) = fs'" "err (state sm2) = err (state sm)"
        "args (state sm2) = args (state sm)" "isFinished (state sm2) = isFinished (state sm)"
        "finalCallback sm2 = finalCallback sm" "trace sm2 = trace sm @ run_of f"
        by auto
      have "length (nextTickQueue sm2) + length fs' < length (nextTickQueue sm) + length fs"
        using q snoc sm2(2) by simp
      from less.hyps [OF this sm2(3)] pfs sm2(2,4)
      obtain sm' where "drain sm2 = Inr sm'"
        "unwind_calls sm' = unwind_calls sm2 @ runs fs'
           @ (if \<not> isFinished (state sm2) \<and> finalCallback sm2
              then [FinalCallback (args (state sm2))] else [])"
        "isFinished (state sm')" "unwinding (state sm') = []" "nextTickQueue sm' = []"
        by auto
      with drain_next [of sm sm2] sm2 q snoc show ?thesis
        by (cases f) (simp_all add: unwind_calls_def)
    qed
  qed
qed

text \<open>The same run when the unwinding is all that is scheduled: the trace itself.\<close>

lemma drain_actions:
  assumes "nextTickQueue sm = [BoundUnwind]"
    and "unwinding (state sm) = fs"
    and "list_all (passes (err (state sm))) fs"
  shows "\<exists>sm'. drain sm = Inr sm'
           \<and> trace sm' = trace sm @ runs fs
                @ (if \<not> isFinished (state sm) \<and> finalCallback sm
                   then [FinalCallback (args (state sm))] else [])"
  using assms
proof (induction fs arbitrary: sm rule: rev_induct)
  case Nil
  have "\<exists>sm2. tick sm = Inr sm2 \<and> nextTickQueue sm2 = []
          \<and> trace sm2 = trace sm
               @ (if \<not> isFinished (state sm) \<and> finalCallback sm
                  then [FinalCallback (args (state sm))] else [])"
    using Nil by (simp add: tick_def unwind_def emit_def Let_def)
  then obtain sm2 where "tick sm = Inr sm2" "nextTickQueue sm2 = []"
    "trace sm2 = trace sm
       @ (if \<not> isFinished (state sm) \<and> finalCallback sm
          then [FinalCallback (args (state sm))] else [])"
    by blast
  with drain_next [of sm sm2] Nil show ?case by (simp add: drain_done)
next
  case (snoc f fs)
  from snoc.prems(3) have pf: "passes (err (state sm)) f"
    and pfs: "list_all (passes (err (state sm))) fs"
    by simp_all
  from tick_passes [of sm "[]" fs f] snoc.prems(1,2) pf
  obtain sm2 where sm2: "tick sm = Inr sm2" "nextTickQueue sm2 = [BoundUnwind]"
    "unwinding (state sm2) = fs" "err (state sm2) = err (state sm)"
    "args (state sm2) = args (state sm)" "isFinished (state sm2) = isFinished (state sm)"
    "finalCallback sm2 = finalCallback sm" "trace sm2 = trace sm @ run_of f"
    by auto
  from snoc.IH [OF sm2(2,3)] pfs sm2(4)
  obtain sm' where "drain sm2 = Inr sm'"
    "trace sm' = trace sm2 @ runs fs
       @ (if \<not> isFinished (state sm2) \<and> finalCallback sm2
          then [FinalCallback (args (state sm2))] else [])"
    by auto
  with drain_next [of sm sm2] sm2 snoc.prems(1) show ?case by simp
qed

lemma pushCleanupActions_fold:
  "foldl (\<lambda>s (f, as). pushCleanupAction f as s) sm acts
     = sm\<lparr> state := (state sm)\<lparr> unwinding := unwinding (state sm)
                                    @ map (\<lambda>(f, as). CleanupAction f as) acts \<rparr> \<rparr>"
  by (induction acts arbitrary: sm) (auto simp: pushCleanupAction_def)

text \<open>
  The run of the queue after \<open>callback(as)\<close> on a machine whose unwind stack holds only
  frames that pass, \<open>err\<close> being the first of \<open>as\<close>.
\<close>

lemma callback_unwinds:
  assumes "list_all (passes (case as of [] \<Rightarrow> Undefined | e # _ \<Rightarrow> e)) (unwinding (state sm))"
  shows "\<exists>sm'. drain (callback as sm) = Inr sm'
           \<and> unwind_calls sm' = unwind_calls sm @ runs (unwinding (state sm))
                @ (if \<not> isFinished (state sm) \<and> finalCallback sm then [FinalCallback as] else [])
           \<and> (nextTickQueue sm = [] \<longrightarrow>
                trace sm' = trace sm @ runs (unwinding (state sm))
                  @ (if \<not> isFinished (state sm) \<and> finalCallback sm then [FinalCallback as] else []))
           \<and> isFinished (state sm') \<and> unwinding (state sm') = [] \<and> nextTickQueue sm' = []"
proof -
  let ?sm1 = "callback as sm"
  let ?fs = "unwinding (state sm)"
  let ?fin = "if \<not> isFinished (state sm) \<and> finalCallback sm then [FinalCallback as] else []"
  have "\<exists>sm'. drain ?sm1 = Inr sm'
           \<and> unwind_calls sm' = unwind_calls ?sm1 @ runs ?fs
                @ (if \<not> isFinished (state ?sm1) \<and> finalCallback ?sm1
                   then [FinalCallback (args (state ?sm1))] else [])
           \<and> isFinished (state sm') \<and> unwinding (state sm') = [] \<and> nextTickQueue sm' = []"
    using assms by (intro drain_unwind) (simp_all add: callback_def nextTick_def)
  then obtain sm' where sm': "drain ?sm1 = Inr sm'"
    "unwind_calls sm' = unwind_calls sm @ runs ?fs @ ?fin"
    "isFinished (state sm')" "unwinding (state sm') = []" "nextTickQueue sm' = []"
    by (auto simp: callback_def nextTick_def unwind_calls_def)
  have "trace sm' = trace sm @ runs ?fs @ ?fin" if "nextTickQueue sm = []"
  proof -
    have "\<exists>sm''. drain ?sm1 = Inr sm''
            \<and> trace sm'' = trace ?sm1 @ runs ?fs
                 @ (if \<not> isFinished (state ?sm1) \<and> finalCallback ?sm1
                    then [FinalCallback (args (state ?sm1))] else [])"
      using assms that by (intro drain_actions) (simp_all add: callback_def nextTick_def)
    with sm'(1) show ?thesis by (auto simp: callback_def nextTick_def)
  qed
  with sm' show ?thesis by blast
qed

text \<open>
  C6. On a machine with an empty unwind stack, registering the cleanup actions \<open>acts\<close> in
  order with \<open>pushCleanupAction\<close> and then calling \<open>callback(null)\<close> makes the run of the
  queue perform, as its cleanup and completion calls, exactly the actions in the reverse
  order of their registration, each once, and after them the completion callback with
  \<open>(null)\<close> (which is called when the machine has one and has not finished before). When
  nothing else was scheduled these are all the calls of the run.
\<close>

theorem cleanup_actions_lifo:
  assumes "unwinding (state sm) = []"
  shows "\<exists>sm'. drain (callback [Null] (foldl (\<lambda>s (f, as). pushCleanupAction f as s) sm acts))
                 = Inr sm'
           \<and> unwind_calls sm' = unwind_calls sm @ map (\<lambda>(f, as). CleanupRun f as) (rev acts)
                @ (if \<not> isFinished (state sm) \<and> finalCallback sm
                   then [FinalCallback [Null]] else [])
           \<and> (nextTickQueue sm = [] \<longrightarrow>
                trace sm' = trace sm @ map (\<lambda>(f, as). CleanupRun f as) (rev acts)
                  @ (if \<not> isFinished (state sm) \<and> finalCallback sm
                     then [FinalCallback [Null]] else []))"
proof -
  let ?sm1 = "foldl (\<lambda>s (f, as). pushCleanupAction f as s) sm acts"
  have u: "unwinding (state ?sm1) = map (\<lambda>(f, as). CleanupAction f as) acts"
    using assms by (simp add: pushCleanupActions_fold)
  have "list_all (passes Null) (map (\<lambda>(f, as). CleanupAction f as) acts)"
    by (induction acts) auto
  with u have "list_all (passes (case [Null] of [] \<Rightarrow> Undefined | e # _ \<Rightarrow> e))
                 (unwinding (state ?sm1))"
    by simp
  from callback_unwinds [OF this] u show ?thesis
    by (auto simp: pushCleanupActions_fold unwind_calls_def)
qed

theorem cleanup_actions_lifo_witness:
  "unwinding (state (new_StateMachine True)) = []
 \<and> trace (after (drain (callback [Null]
      (pushCleanupAction 2 [Str ''x''] (pushCleanupAction 1 [] (new_StateMachine True))))))
    = [CleanupRun 2 [Str ''x''], CleanupRun 1 [], FinalCallback [Null]]"
proof -
  have h: "unwinding (state (new_StateMachine True)) = []"
    by (simp add: new_defs)
  have t: "nextTickQueue (new_StateMachine True) = []" "trace (new_StateMachine True) = []"
    "\<not> isFinished (state (new_StateMachine True))" "finalCallback (new_StateMachine True)"
    by (simp_all add: new_defs)
  from cleanup_actions_lifo [OF h, of "[(1, []), (2, [Str ''x''])]"] t
  obtain sm' where
    "drain (callback [Null]
       (pushCleanupAction 2 [Str ''x''] (pushCleanupAction 1 [] (new_StateMachine True)))) = Inr sm'"
    "trace sm' = trace (new_StateMachine True)
                   @ [CleanupRun 2 [Str ''x''], CleanupRun 1 [], FinalCallback [Null]]"
    by auto
  with h t show ?thesis by simp
qed

subsection \<open>Completion\<close>

text \<open>
  C3. On a machine that has not finished, has a completion callback and an empty unwind
  stack, \<open>callback(null, "ok")\<close> makes the run of the queue call the completion callback
  once, with \<open>(null, "ok")\<close> (the only call of the run when nothing else was scheduled),
  and set \<open>isFinished\<close>. From then on a further \<open>callback(...)\<close> and its tick call nothing,
  and no sequence of operations whatever makes the machine call the completion callback
  again or unsets \<open>isFinished\<close>.
\<close>

theorem callback_finishes_once:
  assumes "unwinding (state sm) = []" "\<not> isFinished (state sm)" "finalCallback sm"
  shows "\<exists>sm'. drain (callback [Null, Str ''ok''] sm) = Inr sm'
           \<and> final_calls sm' = final_calls sm @ [FinalCallback [Null, Str ''ok'']]
           \<and> (nextTickQueue sm = [] \<longrightarrow> trace sm' = trace sm @ [FinalCallback [Null, Str ''ok'']])
           \<and> isFinished (state sm')
           \<and> (\<forall>as. \<exists>sm''. drain (callback as sm') = Inr sm'' \<and> trace sm'' = trace sm'
                            \<and> isFinished (state sm''))
           \<and> (\<forall>ops. final_calls (exec ops sm') = final_calls sm'
                     \<and> isFinished (state (exec ops sm')))"
proof -
  from callback_unwinds [of "[Null, Str ''ok'']" sm] assms
  obtain sm' where sm': "drain (callback [Null, Str ''ok''] sm) = Inr sm'"
    "unwind_calls sm' = unwind_calls sm @ [FinalCallback [Null, Str ''ok'']]"
    "nextTickQueue sm = [] \<longrightarrow> trace sm' = trace sm @ [FinalCallback [Null, Str ''ok'']]"
    "isFinished (state sm')" "unwinding (state sm') = []" "nextTickQueue sm' = []"
    by auto
  have again: "\<exists>sm''. drain (callback as sm') = Inr sm'' \<and> trace sm'' = trace sm'
                  \<and> isFinished (state sm'')" for as
    using sm'(4,5,6) drain_finished [of "callback as sm'"]
    by (simp add: callback_def nextTick_def)
  have "final_calls sm' = final_calls sm @ [FinalCallback [Null, Str ''ok'']]"
    using sm'(2) by (simp add: final_calls_unwind_calls)
  with sm' again finished_exec [OF sm'(4)] show ?thesis by blast
qed

theorem callback_finishes_once_witness:
  "unwinding (state (new_StateMachine True)) = []
 \<and> \<not> isFinished (state (new_StateMachine True))
 \<and> finalCallback (new_StateMachine True)
 \<and> trace (after (drain (callback [Null, Str ''ok''] (new_StateMachine True))))
      = [FinalCallback [Null, Str ''ok'']]
 \<and> final_calls (exec [Callback [Str ''again''], Tick, Tick]
      (after (drain (callback [Null, Str ''ok''] (new_StateMachine True)))))
      = [FinalCallback [Null, Str ''ok'']]"
proof -
  have h: "unwinding (state (new_StateMachine True)) = []"
    "\<not> isFinished (state (new_StateMachine True))"
    "finalCallback (new_StateMachine True)"
    by (simp_all add: new_defs)
  have t: "nextTickQueue (new_StateMachine True) = []" "trace (new_StateMachine True) = []"
    by (simp_all add: new_defs)
  from callback_finishes_once [OF h] t
  obtain sm' where
    "drain (callback [Null, Str ''ok''] (new_StateMachine True)) = Inr sm'"
    "trace sm' = trace (new_StateMachine True) @ [FinalCallback [Null, Str ''ok'']]"
    "\<forall>ops. final_calls (exec ops sm') = final_calls sm' \<and> isFinished (state (exec ops sm'))"
    by auto
  with h t show ?thesis by (simp add: final_calls_def)
qed

subsection \<open>Abort\<close>

text \<open>
  C7, as the code has it. With \<open>waiting > 0\<close>, \<open>abort(err)\<close> stores \<open>err\<close> in
  \<open>abort_with_error\<close> and changes nothing else. With \<open>waiting = 0\<close> it is \<open>callback(err)\<close>.
  When moreover the machine has not finished, has a completion callback, and every frame
  of its unwind stack passes (a cleanup action, or an error step while \<open>err\<close> is not set),
  the run of the queue performs the cleanup actions of the stack and then calls the
  completion callback, once, with \<open>(err)\<close>; when nothing else was scheduled the run calls
  nothing else, the step function in particular.
\<close>

theorem abort_behaviour:
  "(0 < waiting (state sm) \<longrightarrow> abort e sm = sm\<lparr> state := (state sm)\<lparr> abort_with_error := e \<rparr> \<rparr>)
 \<and> (waiting (state sm) = 0 \<longrightarrow> abort e sm = callback [e] sm)
 \<and> (waiting (state sm) = 0 \<and> \<not> isFinished (state sm) \<and> finalCallback sm
      \<and> list_all (passes e) (unwinding (state sm)) \<longrightarrow>
      (\<exists>sm'. drain (abort e sm) = Inr sm'
         \<and> unwind_calls sm' = unwind_calls sm @ runs (unwinding (state sm)) @ [FinalCallback [e]]
         \<and> final_calls sm' = final_calls sm @ [FinalCallback [e]]
         \<and> (nextTickQueue sm = [] \<longrightarrow>
              trace sm' = trace sm @ runs (unwinding (state sm)) @ [FinalCallback [e]])
         \<and> isFinished (state sm')))"
proof -
  have "\<exists>sm'. drain (callback [e] sm) = Inr sm'
         \<and> unwind_calls sm' = unwind_calls sm @ runs (unwinding (state sm)) @ [FinalCallback [e]]
         \<and> final_calls sm' = final_calls sm @ [FinalCallback [e]]
         \<and> (nextTickQueue sm = [] \<longrightarrow>
              trace sm' = trace sm @ runs (unwinding (state sm)) @ [FinalCallback [e]])
         \<and> isFinished (state sm')"
    if "\<not> isFinished (state sm)" "finalCallback sm" "list_all (passes e) (unwinding (state sm))"
    using callback_unwinds [of "[e]" sm] that
    by (auto simp: final_calls_unwind_calls)
  then show ?thesis
    by (simp add: abort_def)
qed

text \<open>
  With a step scheduled the error is only recorded; on a new machine with one cleanup
  action registered the action runs and the completion callback gets the error.
\<close>

theorem abort_behaviour_witness:
  "0 < waiting (state (start (new_StateMachine True)))
 \<and> abort_with_error (state (abort (ErrorObj ''stop'') (start (new_StateMachine True))))
      = ErrorObj ''stop''
 \<and> nextTickQueue (abort (ErrorObj ''stop'') (start (new_StateMachine True))) = [BoundStep]
 \<and> waiting (state (pushCleanupAction 1 [] (new_StateMachine True))) = 0
 \<and> list_all (passes (ErrorObj ''stop''))
      (unwinding (state (pushCleanupAction 1 [] (new_StateMachine True))))
 \<and> abort (ErrorObj ''stop'') (pushCleanupAction 1 [] (new_StateMachine True))
      = callback [ErrorObj ''stop''] (pushCleanupAction 1 [] (new_StateMachine True))
 \<and> trace (after (drain (abort (ErrorObj ''stop'') (pushCleanupAction 1 [] (new_StateMachine True)))))
      = [CleanupRun 1 [], FinalCallback [ErrorObj ''stop'']]"
proof -
  let ?sm = "pushCleanupAction 1 [] (new_StateMachine True)"
  have h: "waiting (state ?sm) = 0 \<and> \<not> isFinished (state ?sm) \<and> finalCallback ?sm
         \<and> list_all (passes (ErrorObj ''stop'')) (unwinding (state ?sm))"
    by (simp add: pushCleanupAction_def new_defs)
  have w: "0 < waiting (state (start (new_StateMachine True)))"
    by (simp add: start_def goTo_def nextTick_def new_defs)
  have t: "nextTickQueue ?sm = []" "trace ?sm = []" "unwinding (state ?sm) = [CleanupAction 1 []]"
    by (simp_all add: pushCleanupAction_def new_defs)
  from abort_behaviour [of ?sm "ErrorObj ''stop''"] h t
  obtain sm' where
    "abort (ErrorObj ''stop'') ?sm = callback [ErrorObj ''stop''] ?sm"
    "drain (abort (ErrorObj ''stop'') ?sm) = Inr sm'"
    "trace sm' = [CleanupRun 1 [], FinalCallback [ErrorObj ''stop'']]"
    by (auto simp: runs_def)
  moreover from abort_behaviour [of "start (new_StateMachine True)" "ErrorObj ''stop''"] w
  have "abort (ErrorObj ''stop'') (start (new_StateMachine True))
          = (start (new_StateMachine True))
              \<lparr> state := (state (start (new_StateMachine True)))
                            \<lparr> abort_with_error := ErrorObj ''stop'' \<rparr> \<rparr>"
    by simp
  moreover have "nextTickQueue (start (new_StateMachine True)) = [BoundStep]"
    by (simp add: start_def goTo_def nextTick_def new_defs)
  ultimately show ?thesis using h w by simp
qed

text \<open>
  C7, as the specification states it, fails in two ways. With an error step registered
  (\<open>pushErrorStep(5)\<close> on a new machine, \<open>waiting\<close> 0), \<open>abort(err)\<close> unwinds to the handler:
  the run of the queue calls the step function with \<open>(err)\<close> and never the completion
  callback, which is left to what the handler does. And on a machine that has finished
  \<open>waiting\<close> is 0 too, and \<open>abort(err)\<close> calls nothing: the only call of the completion
  callback is the one that finished the machine.
\<close>

theorem abort_without_completion:
  "waiting (state (exec [PushErrorStep 5] (new_StateMachine True))) = 0
 \<and> trace (exec [PushErrorStep 5, Abort (ErrorObj ''stop''), Tick, Tick] (new_StateMachine True))
      = [FnCall [ErrorObj ''stop'']]
 \<and> nextTickQueue (exec [PushErrorStep 5, Abort (ErrorObj ''stop''), Tick, Tick]
      (new_StateMachine True)) = []
 \<and> waiting (state (exec [Callback [Null, Str ''ok''], Tick] (new_StateMachine True))) = 0
 \<and> isFinished (state (exec [Callback [Null, Str ''ok''], Tick] (new_StateMachine True)))
 \<and> trace (exec [Callback [Null, Str ''ok''], Tick, Abort (ErrorObj ''late''), Tick]
             (new_StateMachine True)) = [FinalCallback [Null, Str ''ok'']]
 \<and> nextTickQueue (exec [Callback [Null, Str ''ok''], Tick, Abort (ErrorObj ''late''), Tick]
             (new_StateMachine True)) = []"
  by (simp add: exec_def sm_defs new_defs Let_def)

end
